theory Spec2Isabelle
  imports Main
begin

section \<open>The microphone controller of \<open>microphone-process/assets/script.js\<close>\<close>

text \<open>
  The script binds two click listeners. The start listener is an \<open>async\<close> function with
  two \<open>await\<close> points (the permission request and the loading of the worklet module); the
  stop listener is synchronous. The only variable of the script is the module-level
  \<open>let stream;\<close>. Everything else the script touches belongs to the browser: media streams
  and their tracks, audio contexts and their nodes, the \<open>disabled\<close> property of the stop
  button, and the \<open>log\<close> function of the page. The model below keeps that browser state in
  one record and passes it through every call, in the order of the source. The page is taken
  to have both buttons (lines 1 and 2 find them) and a \<open>log\<close> function that records its
  argument.
\<close>

subsection \<open>Values\<close>

type_synonym stream_id = nat
type_synonym track_id = nat
type_synonym context_id = nat

text \<open>\<open>MediaStreamTrack.readyState\<close>.\<close>

datatype ready_state = Live | Ended

text \<open>
  What a JavaScript \<open>throw\<close> or a rejected promise carries: the \<open>TypeError\<close> of a property
  access on \<open>undefined\<close>, or a \<open>DOMException\<close> with its name (\<open>NotAllowedError\<close>,
  \<open>NotFoundError\<close>, \<open>AbortError\<close>, \<open>InvalidStateError\<close>, ...).
\<close>

datatype js_error = TypeError | DOMException string

text \<open>
  The three kinds of audio node the script creates. A context has one destination; the
  script creates one source and one worklet node per context.
\<close>

datatype audio_node =
    MediaStreamSource context_id stream_id
  | WorkletNode context_id string
  | Destination context_id

text \<open>
  How a listener ends. Neither listener has a \<open>try\<close>/\<open>catch\<close> and nothing handles the
  promise of the async listener, so an error that is raised leaves the listener uncaught.
\<close>

datatype outcome = Completed | Uncaught js_error

text \<open>The calls the script makes on the browser, and the settling of the two promises.\<close>

datatype host_call =
    GetUserMedia
  | GetUserMedia_settled "js_error + stream_id"
  | New_AudioContext context_id
  | CreateMediaStreamSource context_id stream_id
  | AddModule context_id string
  | AddModule_settled "js_error option"
  | New_AudioWorkletNode context_id string
  | Connect audio_node audio_node
  | Set_stop_disabled bool
  | Log string
  | Track_stop track_id

subsection \<open>State\<close>

text \<open>
  \<open>stream\<close> is the script's variable (\<open>None\<close> is \<open>undefined\<close>). \<open>stop_disabled\<close> is
  \<open>stopMicrophoneButton.disabled\<close>, \<open>logged\<close> what \<open>log\<close> has received, oldest first.
  \<open>tracks_of\<close> and \<open>ready\<close> are the browser's streams and tracks; identifiers are handed
  out in order by the three counters. \<open>connections\<close> are the edges of the audio graphs, in
  the order of the \<open>connect\<close> calls. \<open>history\<close> records every call on the browser in the
  order in which the script made it.
\<close>

record world =
  stream :: "stream_id option"
  stop_disabled :: bool
  logged :: "string list"
  tracks_of :: "stream_id \<Rightarrow> track_id list"
  ready :: "track_id \<Rightarrow> ready_state"
  streams_made :: nat
  tracks_made :: nat
  contexts_made :: nat
  connections :: "(audio_node \<times> audio_node) list"
  history :: "host_call list"

text \<open>
  The page as the script finds it. The markup of the page is not part of the sources, so
  the initial \<open>disabled\<close> attribute of the stop button is a parameter.
\<close>

definition page_load :: "bool \<Rightarrow> world" where
  "page_load d =
     \<lparr>stream = None, stop_disabled = d, logged = [],
      tracks_of = (\<lambda>_. []), ready = (\<lambda>_. Ended),
      streams_made = 0, tracks_made = 0, contexts_made = 0,
      connections = [], history = []\<rparr>"

definition record_call :: "host_call \<Rightarrow> world \<Rightarrow> world" where
  "record_call c w = w\<lparr>history := history w @ [c]\<rparr>"

subsection \<open>The browser's side of each call\<close>

text \<open>
  \<open>navigator.mediaDevices.getUserMedia({audio: true})\<close> returns a promise at once. It
  settles later, either rejected with an error or fulfilled with a new stream of \<open>n\<close>
  fresh audio tracks, all live.
\<close>

definition call_getUserMedia :: "world \<Rightarrow> world" where
  "call_getUserMedia w = record_call GetUserMedia w"

definition settle_getUserMedia :: "js_error + nat \<Rightarrow> world \<Rightarrow> (js_error + stream_id) \<times> world" where
  "settle_getUserMedia reply w =
     (case reply of
        Inl e \<Rightarrow> (Inl e, record_call (GetUserMedia_settled (Inl e)) w)
      | Inr n \<Rightarrow>
          (let s = streams_made w;
               ts = [tracks_made w ..< tracks_made w + n]
           in (Inr s,
               record_call (GetUserMedia_settled (Inr s))
                 (w\<lparr>tracks_of := (tracks_of w)(s := ts),
                    ready := (\<lambda>t. if t \<in> set ts then Live else ready w t),
                    streams_made := Suc s,
                    tracks_made := tracks_made w + n\<rparr>))))"

text \<open>\<open>new AudioContext()\<close>.\<close>

definition new_AudioContext :: "world \<Rightarrow> context_id \<times> world" where
  "new_AudioContext w =
     (let c = contexts_made w
      in (c, record_call (New_AudioContext c) (w\<lparr>contexts_made := Suc c\<rparr>)))"

text \<open>
  \<open>context.createMediaStreamSource(stream)\<close> throws \<open>InvalidStateError\<close> for a stream
  without an audio track.
\<close>

definition createMediaStreamSource :: "context_id \<Rightarrow> stream_id \<Rightarrow> world \<Rightarrow> (js_error + audio_node) \<times> world" where
  "createMediaStreamSource c s w =
     (if tracks_of w s = []
      then (Inl (DOMException ''InvalidStateError''), record_call (CreateMediaStreamSource c s) w)
      else (Inr (MediaStreamSource c s), record_call (CreateMediaStreamSource c s) w))"

text \<open>\<open>context.audioWorklet.addModule(url)\<close> returns a promise, settled later.\<close>

definition call_addModule :: "context_id \<Rightarrow> string \<Rightarrow> world \<Rightarrow> world" where
  "call_addModule c url w = record_call (AddModule c url) w"

definition settle_addModule :: "js_error option \<Rightarrow> world \<Rightarrow> world" where
  "settle_addModule reply w = record_call (AddModule_settled reply) w"

text \<open>
  \<open>new AudioWorkletNode(context, name)\<close> throws when the loaded module has registered no
  processor of that name. \<open>processor.js\<close> is not part of the sources, so whether it throws
  is a reply of the browser.
\<close>

definition new_AudioWorkletNode :: "js_error option \<Rightarrow> context_id \<Rightarrow> string \<Rightarrow> world \<Rightarrow> (js_error + audio_node) \<times> world" where
  "new_AudioWorkletNode reply c name w =
     (case reply of
        Some e \<Rightarrow> (Inl e, record_call (New_AudioWorkletNode c name) w)
      | None \<Rightarrow> (Inr (WorkletNode c name), record_call (New_AudioWorkletNode c name) w))"

text \<open>\<open>a.connect(b)\<close> adds the edge and returns \<open>b\<close>.\<close>

definition connect :: "audio_node \<Rightarrow> audio_node \<Rightarrow> world \<Rightarrow> audio_node \<times> world" where
  "connect a b w =
     (b, record_call (Connect a b) (w\<lparr>connections := connections w @ [(a, b)]\<rparr>))"

definition set_stop_disabled :: "bool \<Rightarrow> world \<Rightarrow> world" where
  "set_stop_disabled d w = record_call (Set_stop_disabled d) (w\<lparr>stop_disabled := d\<rparr>)"

text \<open>\<open>log(msg)\<close>: the page's status sink.\<close>

definition log :: "string \<Rightarrow> world \<Rightarrow> world" where
  "log msg w = record_call (Log msg) (w\<lparr>logged := logged w @ [msg]\<rparr>)"

text \<open>\<open>track.stop()\<close> ends the track; on an ended track it changes nothing.\<close>

definition track_stop :: "track_id \<Rightarrow> world \<Rightarrow> world" where
  "track_stop t w = record_call (Track_stop t) (w\<lparr>ready := (ready w)(t := Ended)\<rparr>)"

subsection \<open>The start listener\<close>

text \<open>
  The locals \<open>context\<close> and \<open>source\<close> of the async function, alive across the second
  \<open>await\<close>.
\<close>

record frame =
  context_node :: context_id
  source_node :: audio_node

datatype 'a progress = Suspended 'a | Finished outcome

text \<open>Lines 6 to 8, up to the first \<open>await\<close>: the permission request is made.\<close>

definition start_click :: "world \<Rightarrow> world" where
  "start_click w = call_getUserMedia w"

text \<open>
  Lines 8 to 14, from the settling of the permission request up to the second \<open>await\<close>.
  A rejection is thrown by the \<open>await\<close> before the assignment. Otherwise the stream is
  assigned to \<open>stream\<close>, the context is created, the source is created from the stream
  just assigned (line 12 reads \<open>stream\<close> in the same segment), and the module is requested.
\<close>

definition start_after_permission :: "js_error + nat \<Rightarrow> world \<Rightarrow> frame progress \<times> world" where
  "start_after_permission reply w =
     (case settle_getUserMedia reply w of
        (Inl e, w1) \<Rightarrow> (Finished (Uncaught e), w1)
      | (Inr s, w1) \<Rightarrow>
          (let w2 = w1\<lparr>stream := Some s\<rparr>;
               (c, w3) = new_AudioContext w2
           in case createMediaStreamSource c s w3 of
                (Inl e, w4) \<Rightarrow> (Finished (Uncaught e), w4)
              | (Inr src, w4) \<Rightarrow>
                  (Suspended \<lparr>context_node = c, source_node = src\<rparr>,
                   call_addModule c ''processor.js'' w4)))"

text \<open>
  Lines 14 to 20, from the settling of the module load to the end: the worklet node is
  created, the graph is connected, the stop button is enabled, the status is logged.
\<close>

definition start_after_module :: "js_error option \<Rightarrow> js_error option \<Rightarrow> frame \<Rightarrow> world \<Rightarrow> outcome \<times> world" where
  "start_after_module reply ctor fr w =
     (let w1 = settle_addModule reply w
      in case reply of
           Some e \<Rightarrow> (Uncaught e, w1)
         | None \<Rightarrow>
             (case new_AudioWorkletNode ctor (context_node fr) ''processor'' w1 of
                (Inl e, w2) \<Rightarrow> (Uncaught e, w2)
              | (Inr processor, w2) \<Rightarrow>
                  (let (p, w3) = connect (source_node fr) processor w2;
                       (d, w4) = connect p (Destination (context_node fr)) w3;
                       w5 = set_stop_disabled False w4;
                       w6 = log ''Your microphone audio is being used.'' w5
                   in (Completed, w6))))"

text \<open>
  The replies of the browser to one run of the start listener: how the permission request
  settles (an error, or the number of audio tracks of the granted stream), how the module
  load settles, and whether the worklet node's constructor throws.
\<close>

record replies =
  permission :: "js_error + nat"
  module_load :: "js_error option"
  processor_ctor :: "js_error option"

text \<open>One Start: the listener run from the click to its end, with no other listener between.\<close>

definition start :: "replies \<Rightarrow> world \<Rightarrow> outcome \<times> world" where
  "start r w =
     (case start_after_permission (permission r) (start_click w) of
        (Finished out, w1) \<Rightarrow> (out, w1)
      | (Suspended fr, w1) \<Rightarrow> start_after_module (module_load r) (processor_ctor r) fr w1)"

subsection \<open>The stop listener\<close>

text \<open>
  Lines 23 to 28. \<open>stream.getTracks()\<close> on an undefined \<open>stream\<close> throws a \<open>TypeError\<close>
  before anything else happens.
\<close>

definition stop :: "world \<Rightarrow> outcome \<times> world" where
  "stop w =
     (case stream w of
        None \<Rightarrow> (Uncaught TypeError, w)
      | Some s \<Rightarrow>
          (let w1 = fold track_stop (tracks_of w s) w;
               w2 = log ''Your microphone audio is not used anymore.'' w1
           in (Completed, w2)))"

subsection \<open>The controller's two states\<close>

text \<open>
  The script has no state variable. The specification names two states: Capturing, when the
  stream is active and the audio graph is connected, and Idle otherwise. They are read off
  the session the controller holds, that is the stream in \<open>stream\<close>: a stream is active while
  one of its tracks is live, and its graph is connected when a source node of the stream
  feeds a worklet node that feeds a destination.
\<close>

datatype ctrl_state = Idle | Capturing

definition stream_active :: "world \<Rightarrow> stream_id \<Rightarrow> bool" where
  "stream_active w s = (\<exists>t \<in> set (tracks_of w s). ready w t = Live)"

fun is_source_of :: "stream_id \<Rightarrow> audio_node \<Rightarrow> bool" where
  "is_source_of s (MediaStreamSource c s') = (s' = s)"
| "is_source_of s _ = False"

fun is_worklet :: "audio_node \<Rightarrow> bool" where
  "is_worklet (WorkletNode c name) = True"
| "is_worklet _ = False"

fun is_destination :: "audio_node \<Rightarrow> bool" where
  "is_destination (Destination c) = True"
| "is_destination _ = False"

definition graph_connected :: "world \<Rightarrow> stream_id \<Rightarrow> bool" where
  "graph_connected w s =
     (\<exists>(a, b) \<in> set (connections w). \<exists>(b', d) \<in> set (connections w).
        is_source_of s a \<and> is_worklet b \<and> b' = b \<and> is_destination d)"

definition state_of :: "world \<Rightarrow> ctrl_state" where
  "state_of w =
     (case stream w of
        None \<Rightarrow> Idle
      | Some s \<Rightarrow> if stream_active w s \<and> graph_connected w s then Capturing else Idle)"

text \<open>
  Every reply of the browser to a Start is a success: the permission request is granted with
  a stream of \<open>n\<close> audio tracks, at least one, the module loads, and the worklet node is
  built. These are exactly the replies with which a Start ends normally
  (\<open>start_completes_iff\<close> below).
\<close>

definition granted :: "replies \<Rightarrow> nat \<Rightarrow> bool" where
  "granted r n = (permission r = Inr n \<and> 0 < n \<and> module_load r = None \<and> processor_ctor r = None)"

text \<open>The tracks a permission grant of \<open>n\<close> tracks acquires in \<open>w\<close>.\<close>

definition acquired :: "world \<Rightarrow> nat \<Rightarrow> track_id list" where
  "acquired w n = [tracks_made w ..< tracks_made w + n]"

text \<open>
  Every source node in the graph wraps a stream the browser has already handed out. It
  holds when the page loads and every listener keeps it.
\<close>

definition sources_known :: "world \<Rightarrow> bool" where
  "sources_known w =
     list_all (\<lambda>(a, b). case a of MediaStreamSource c s \<Rightarrow> s < streams_made w | _ \<Rightarrow> True)
       (connections w)"

text \<open>
  The tracks \<open>ts\<close> are live and nothing the controller holds leads to them: they were
  handed out before, and the stream in \<open>stream\<close>, if there is one, has none of them.
\<close>

definition out_of_reach :: "track_id list \<Rightarrow> world \<Rightarrow> bool" where
  "out_of_reach ts w =
     ((\<forall>t \<in> set ts. ready w t = Live \<and> t < tracks_made w)
      \<and> (case stream w of None \<Rightarrow> True | Some s \<Rightarrow> set (tracks_of w s) \<inter> set ts = {}))"

subsection \<open>The page: listeners interleaved at their await points\<close>

text \<open>
  While a run of the start listener is suspended at an \<open>await\<close>, the browser may deliver
  further clicks and settle other promises. A page is the browser state together with the
  suspended runs of the start listener and the errors that reached the browser's default
  handler. An event runs one listener segment to its end. A click on the stop button is
  delivered whether or not the button is disabled, which admits more executions than the
  browser does.
\<close>

datatype task = Awaiting_permission | Awaiting_module frame

record page =
  now :: world
  pending :: "task list"
  unhandled :: "js_error list"

datatype event =
    Click_start
  | Click_stop
  | Permission_settles nat "js_error + nat"
  | Module_settles nat "js_error option" "js_error option"

definition finish_task :: "nat \<Rightarrow> outcome \<Rightarrow> world \<Rightarrow> page \<Rightarrow> page" where
  "finish_task i out w p =
     p\<lparr>now := w,
       pending := take i (pending p) @ drop (Suc i) (pending p),
       unhandled := (case out of Completed \<Rightarrow> unhandled p | Uncaught e \<Rightarrow> unhandled p @ [e])\<rparr>"

fun fire :: "event \<Rightarrow> page \<Rightarrow> page" where
  "fire Click_start p =
     p\<lparr>now := start_click (now p), pending := pending p @ [Awaiting_permission]\<rparr>"
| "fire Click_stop p =
     (case stop (now p) of
        (Completed, w) \<Rightarrow> p\<lparr>now := w\<rparr>
      | (Uncaught e, w) \<Rightarrow> p\<lparr>now := w, unhandled := unhandled p @ [e]\<rparr>)"
| "fire (Permission_settles i reply) p =
     (if i < length (pending p)
      then (case pending p ! i of
              Awaiting_permission \<Rightarrow>
                (case start_after_permission reply (now p) of
                   (Suspended fr, w) \<Rightarrow>
                     p\<lparr>now := w, pending := (pending p)[i := Awaiting_module fr]\<rparr>
                 | (Finished out, w) \<Rightarrow> finish_task i out w p)
            | Awaiting_module fr \<Rightarrow> p)
      else p)"
| "fire (Module_settles i reply ctor) p =
     (if i < length (pending p)
      then (case pending p ! i of
              Awaiting_permission \<Rightarrow> p
            | Awaiting_module fr \<Rightarrow>
                (case start_after_module reply ctor fr (now p) of
                   (out, w) \<Rightarrow> finish_task i out w p))
      else p)"

definition run :: "event list \<Rightarrow> page \<Rightarrow> page" where
  "run evs p = fold fire evs p"

definition fresh_page :: "bool \<Rightarrow> page" where
  "fresh_page d = \<lparr>now = page_load d, pending = [], unhandled = []\<rparr>"

text \<open>The events that grant a permission request.\<close>

fun grants :: "event \<Rightarrow> bool" where
  "grants (Permission_settles i (Inr n)) = True"
| "grants _ = False"

subsection \<open>Order of the calls\<close>

text \<open>The calls one Start adds to the history.\<close>

definition calls_of_start :: "replies \<Rightarrow> world \<Rightarrow> host_call list" where
  "calls_of_start r w = drop (length (history w)) (history (snd (start r w)))"

fun permission_resolved :: "host_call \<Rightarrow> bool" where
  "permission_resolved (GetUserMedia_settled (Inr s)) = True"
| "permission_resolved _ = False"

fun module_loaded :: "host_call \<Rightarrow> bool" where
  "module_loaded (AddModule_settled None) = True"
| "module_loaded _ = False"

fun is_connect :: "host_call \<Rightarrow> bool" where
  "is_connect (Connect a b) = True"
| "is_connect _ = False"

fun connects_source :: "host_call \<Rightarrow> bool" where
  "connects_source (Connect (MediaStreamSource c s) b) = True"
| "connects_source _ = False"

fun connects_output :: "host_call \<Rightarrow> bool" where
  "connects_output (Connect a (Destination c)) = True"
| "connects_output _ = False"

fun enables_stop :: "host_call \<Rightarrow> bool" where
  "enables_stop (Set_stop_disabled False) = True"
| "enables_stop _ = False"

fun is_log :: "host_call \<Rightarrow> bool" where
  "is_log (Log msg) = True"
| "is_log _ = False"

text \<open>
  \<open>waits_for P Q h\<close>: in the list of calls \<open>h\<close> no call satisfying \<open>Q\<close> is made until a
  call satisfying \<open>P\<close> has been made.
\<close>

fun waits_for :: "(host_call \<Rightarrow> bool) \<Rightarrow> (host_call \<Rightarrow> bool) \<Rightarrow> host_call list \<Rightarrow> bool" where
  "waits_for P Q [] = True"
| "waits_for P Q (x # xs) = (\<not> Q x \<and> (P x \<or> waits_for P Q xs))"

subsection \<open>Replies used as concrete inputs\<close>

text \<open>Permission granted with one audio track, and everything after it succeeds.\<close>

definition one_track :: replies where
  "one_track = \<lparr>permission = Inr 1, module_load = None, processor_ctor = None\<rparr>"

text \<open>Permission granted with one audio track, then \<open>processor.js\<close> fails to load.\<close>

definition module_fails :: replies where
  "module_fails =
     \<lparr>permission = Inr 1, module_load = Some (DOMException ''AbortError''),
      processor_ctor = None\<rparr>"

text \<open>The user denies the permission request.\<close>

definition denied :: replies where
  "denied =
     \<lparr>permission = Inl (DOMException ''NotAllowedError''), module_load = None,
      processor_ctor = None\<rparr>"

text \<open>
  Permission granted with one audio track and the module loaded, then the constructor of the
  worklet node throws.
\<close>

definition ctor_fails :: replies where
  "ctor_fails =
     \<lparr>permission = Inr 1, module_load = None,
      processor_ctor = Some (DOMException ''InvalidStateError'')\<rparr>"


section \<open>Basic facts\<close>

lemmas host_defs =
  record_call_def call_getUserMedia_def settle_getUserMedia_def new_AudioContext_def
  createMediaStreamSource_def call_addModule_def settle_addModule_def
  new_AudioWorkletNode_def connect_def set_stop_disabled_def log_def
  start_click_def start_after_permission_def start_after_module_def

lemma page_load_simps:
  "stream (page_load d) = None"
  "stop_disabled (page_load d) = d"
  "logged (page_load d) = []"
  "connections (page_load d) = []"
  "history (page_load d) = []"
  "streams_made (page_load d) = 0"
  "tracks_made (page_load d) = 0"
  "contexts_made (page_load d) = 0"
  "tracks_of (page_load d) s = []"
  "ready (page_load d) t = Ended"
  by (simp_all add: page_load_def)

text \<open>What one Start does, for each way the browser can reply.\<close>

lemma start_granted:
  assumes "granted r n"
  shows "start r w = (Completed,
     w\<lparr>stream := Some (streams_made w),
       stop_disabled := False,
       logged := logged w @ [''Your microphone audio is being used.''],
       tracks_of := (tracks_of w)(streams_made w := acquired w n),
       ready := (\<lambda>t. if t \<in> set (acquired w n) then Live else ready w t),
       streams_made := Suc (streams_made w),
       tracks_made := tracks_made w + n,
       contexts_made := Suc (contexts_made w),
       connections := connections w @
         [(MediaStreamSource (contexts_made w) (streams_made w),
           WorkletNode (contexts_made w) ''processor''),
          (WorkletNode (contexts_made w) ''processor'', Destination (contexts_made w))],
       history := history w @
         [GetUserMedia, GetUserMedia_settled (Inr (streams_made w)),
          New_AudioContext (contexts_made w),
          CreateMediaStreamSource (contexts_made w) (streams_made w),
          AddModule (contexts_made w) ''processor.js'', AddModule_settled None,
          New_AudioWorkletNode (contexts_made w) ''processor'',
          Connect (MediaStreamSource (contexts_made w) (streams_made w))
            (WorkletNode (contexts_made w) ''processor''),
          Connect (WorkletNode (contexts_made w) ''processor'')
            (Destination (contexts_made w)),
          Set_stop_disabled False, Log ''Your microphone audio is being used.'']\<rparr>)"
  using assms
  by (simp add: start_def granted_def host_defs acquired_def Let_def cong: if_cong)

lemma start_rejected:
  assumes "permission r = Inl e"
  shows "start r w =
    (Uncaught e, w\<lparr>history := history w @ [GetUserMedia, GetUserMedia_settled (Inl e)]\<rparr>)"
  using assms by (simp add: start_def host_defs)

lemma start_module_fails:
  assumes "permission r = Inr n" and "0 < n" and "module_load r = Some e"
  shows "start r w = (Uncaught e,
     w\<lparr>stream := Some (streams_made w),
       tracks_of := (tracks_of w)(streams_made w := acquired w n),
       ready := (\<lambda>t. if t \<in> set (acquired w n) then Live else ready w t),
       streams_made := Suc (streams_made w),
       tracks_made := tracks_made w + n,
       contexts_made := Suc (contexts_made w),
       history := history w @
         [GetUserMedia, GetUserMedia_settled (Inr (streams_made w)),
          New_AudioContext (contexts_made w),
          CreateMediaStreamSource (contexts_made w) (streams_made w),
          AddModule (contexts_made w) ''processor.js'', AddModule_settled (Some e)]\<rparr>)"
  using assms
  by (simp add: start_def host_defs acquired_def Let_def cong: if_cong)

text \<open>What one Stop does.\<close>

lemma fold_track_stop:
  "fold track_stop ts w =
     w\<lparr>ready := (\<lambda>t. if t \<in> set ts then Ended else ready w t),
       history := history w @ map Track_stop ts\<rparr>"
  by (induction ts arbitrary: w)
     (auto simp: track_stop_def record_call_def fun_eq_iff cong: if_cong)

lemma stop_defined:
  assumes "stream w = Some s"
  shows "stop w = (Completed,
     w\<lparr>logged := logged w @ [''Your microphone audio is not used anymore.''],
       ready := (\<lambda>t. if t \<in> set (tracks_of w s) then Ended else ready w t),
       history := history w @ map Track_stop (tracks_of w s) @
         [Log ''Your microphone audio is not used anymore.'']\<rparr>)"
  using assms by (simp add: stop_def fold_track_stop log_def record_call_def)

lemma stop_undefined: "stream w = None \<Longrightarrow> stop w = (Uncaught TypeError, w)"
  by (simp add: stop_def)

text \<open>
  A Start that no other listener interrupts is the page's click followed by the settling
  of its two promises.
\<close>

lemma start_on_page:
  "run [Click_start, Permission_settles 0 (permission r),
        Module_settles 0 (module_load r) (processor_ctor r)]
       \<lparr>now = w, pending = [], unhandled = us\<rparr> =
   \<lparr>now = snd (start r w), pending = [],
    unhandled = (case fst (start r w) of Completed \<Rightarrow> us | Uncaught e \<Rightarrow> us @ [e])\<rparr>"
  by (auto simp: run_def start_def finish_task_def
           split: prod.splits progress.splits outcome.splits)

lemma granted_one_track: "granted one_track 1"
  by (simp add: granted_def one_track_def)

lemma acquired_nonempty: "0 < n \<Longrightarrow> acquired w n \<noteq> []"
  by (simp add: acquired_def)

subsection \<open>The state read off the world\<close>

lemma state_of_history [simp]: "state_of (w\<lparr>history := h\<rparr>) = state_of w"
  by (simp add: state_of_def stream_active_def graph_connected_def split: option.splits)

lemma idle_page_load: "state_of (page_load d) = Idle"
  by (simp add: state_of_def page_load_def)

lemma state_after_granted:
  assumes "granted r n"
  shows "state_of (snd (start r w)) = Capturing"
proof -
  from assms have n: "0 < n" by (simp add: granted_def)
  then have "tracks_made w \<in> set (acquired w n)" by (simp add: acquired_def)
  then have act: "stream_active (snd (start r w)) (streams_made w)"
    using assms by (auto simp: start_granted stream_active_def)
  have con: "graph_connected (snd (start r w)) (streams_made w)"
    using assms by (simp add: start_granted graph_connected_def)
  show ?thesis using assms act con by (simp add: state_of_def start_granted)
qed

lemma capturing_holds_stream:
  assumes "state_of w = Capturing"
  obtains s where "stream w = Some s" and "stream_active w s" and "graph_connected w s"
  using assms by (auto simp: state_of_def split: option.splits if_splits)

lemma stop_ends_state:
  assumes "stream w = Some s"
  shows "state_of (snd (stop w)) = Idle"
  using assms by (simp add: stop_defined state_of_def stream_active_def)

subsection \<open>Source nodes wrap streams that exist\<close>

lemma sources_known_page_load: "sources_known (page_load d)"
  by (simp add: sources_known_def page_load_def)

lemma sources_known_fresh:
  assumes "sources_known w"
  shows "\<not> graph_connected w (streams_made w)"
proof
  assume "graph_connected w (streams_made w)"
  then obtain a b where ab: "(a, b) \<in> set (connections w)"
    and src: "is_source_of (streams_made w) a"
    by (auto simp: graph_connected_def)
  from src obtain c where "a = MediaStreamSource c (streams_made w)"
    by (cases a) auto
  with ab assms show False
    by (auto simp: sources_known_def list_all_iff)
qed

lemma sources_known_start: "sources_known w \<Longrightarrow> sources_known (snd (start r w))"
  by (auto simp: start_def host_defs sources_known_def list_all_iff Let_def
           split: sum.splits option.splits audio_node.splits if_splits)

lemma sources_known_stop: "sources_known w \<Longrightarrow> sources_known (snd (stop w))"
  by (cases "stream w")
     (auto simp: stop_undefined stop_defined sources_known_def list_all_iff
           split: audio_node.splits)

subsection \<open>Facts that hold along every execution of the page\<close>

text \<open>
  A property of the browser state that each listener segment keeps is kept by every event,
  and so by every run of events.
\<close>

lemma start_click_eq: "start_click w = w\<lparr>history := history w @ [GetUserMedia]\<rparr>"
  by (simp add: host_defs)

lemma fire_invariant:
  assumes "I (now p)"
    and click: "\<And>w. I w \<Longrightarrow> I (start_click w)"
    and stop: "\<And>w. I w \<Longrightarrow> I (snd (stop w))"
    and perm: "\<And>reply w. I w \<Longrightarrow> I (snd (start_after_permission reply w))"
    and modl: "\<And>reply ctor fr w. I w \<Longrightarrow> I (snd (start_after_module reply ctor fr w))"
  shows "I (now (fire ev p))"
proof (cases ev)
  case Click_start
  then show ?thesis using assms(1) click by simp
next
  case Click_stop
  have "now (fire Click_stop p) = snd (stop (now p))"
    by (simp split: prod.splits outcome.splits)
  then show ?thesis using Click_stop assms(1) stop by simp
next
  case (Permission_settles i reply)
  have "now (fire (Permission_settles i reply) p) = now p
      \<or> now (fire (Permission_settles i reply) p) = snd (start_after_permission reply (now p))"
    by (simp add: finish_task_def split: prod.splits task.splits progress.splits)
  then show ?thesis using Permission_settles assms(1) perm by auto
next
  case (Module_settles i reply ctor)
  have "now (fire (Module_settles i reply ctor) p) = now p
      \<or> (\<exists>fr. now (fire (Module_settles i reply ctor) p) =
            snd (start_after_module reply ctor fr (now p)))"
    by (cases "i < length (pending p)"; cases "pending p ! i")
       (auto simp: finish_task_def split_beta)
  then show ?thesis using Module_settles assms(1) modl by auto
qed

lemma run_invariant:
  assumes "I (now p)"
    and click: "\<And>w. I w \<Longrightarrow> I (start_click w)"
    and stop: "\<And>w. I w \<Longrightarrow> I (snd (stop w))"
    and perm: "\<And>reply w. I w \<Longrightarrow> I (snd (start_after_permission reply w))"
    and modl: "\<And>reply ctor fr w. I w \<Longrightarrow> I (snd (start_after_module reply ctor fr w))"
  shows "I (now (run evs p))"
  using assms(1)
proof (induction evs arbitrary: p)
  case Nil
  then show ?case by (simp add: run_def)
next
  case (Cons ev evs)
  have "I (now (fire ev p))"
    using Cons.prems click stop perm modl by (rule fire_invariant)
  then have "I (now (run evs (fire ev p)))" by (rule Cons.IH)
  then show ?case by (simp add: run_def)
qed

lemma stop_keeps_enabled: "stop_disabled (snd (stop w)) = stop_disabled w"
  by (cases "stream w") (simp_all add: stop_undefined stop_defined)

lemma permission_keeps_enabled:
  "stop_disabled (snd (start_after_permission reply w)) = stop_disabled w"
  by (simp add: host_defs Let_def split: sum.splits)

lemma module_keeps_enabled:
  "\<not> stop_disabled w \<Longrightarrow> \<not> stop_disabled (snd (start_after_module reply ctor fr w))"
  by (simp add: host_defs Let_def split: option.splits)

lemma run_keeps_enabled:
  assumes "\<not> stop_disabled (now p)"
  shows "\<not> stop_disabled (now (run evs p))"
  using assms
  by (rule run_invariant [where I = "\<lambda>w. \<not> stop_disabled w"])
     (simp_all add: start_click_eq stop_keeps_enabled permission_keeps_enabled module_keeps_enabled)

text \<open>No segment sets \<open>disabled\<close> to true, and none but the last of Start touches it.\<close>

lemma never_disables_click:
  "Set_stop_disabled True \<notin> set (history w) \<Longrightarrow>
   Set_stop_disabled True \<notin> set (history (start_click w))"
  by (simp add: start_click_eq)

lemma never_disables_stop:
  "Set_stop_disabled True \<notin> set (history w) \<Longrightarrow>
   Set_stop_disabled True \<notin> set (history (snd (stop w)))"
  by (cases "stream w") (auto simp: stop_undefined stop_defined)

lemma never_disables_permission:
  "Set_stop_disabled True \<notin> set (history w) \<Longrightarrow>
   Set_stop_disabled True \<notin> set (history (snd (start_after_permission reply w)))"
  by (simp add: host_defs Let_def split: sum.splits)

lemma never_disables_module:
  "Set_stop_disabled True \<notin> set (history w) \<Longrightarrow>
   Set_stop_disabled True \<notin> set (history (snd (start_after_module reply ctor fr w)))"
  by (simp add: host_defs Let_def split: option.splits)

lemma run_never_disables:
  assumes "Set_stop_disabled True \<notin> set (history (now p))"
  shows "Set_stop_disabled True \<notin> set (history (now (run evs p)))"
  using assms
  by (rule run_invariant [where I = "\<lambda>w. Set_stop_disabled True \<notin> set (history w)"])
     (simp_all add: never_disables_click never_disables_stop never_disables_permission
        never_disables_module)

text \<open>Until a permission request is granted, \<open>stream\<close> stays undefined.\<close>

lemma fire_no_grant:
  assumes "\<not> grants ev" and "stream (now p) = None"
  shows "stream (now (fire ev p)) = None"
proof (cases ev)
  case Click_start
  then show ?thesis using assms by (simp add: start_click_eq)
next
  case Click_stop
  then show ?thesis using assms by (simp add: stop_undefined)
next
  case (Permission_settles i reply)
  with assms(1) obtain e where "reply = Inl e" by (cases reply) auto
  then show ?thesis
    using Permission_settles assms(2)
    by (simp add: host_defs finish_task_def split: task.splits)
next
  case (Module_settles i reply ctor)
  have "stream (snd (start_after_module reply ctor fr w)) = stream w" for fr w
    by (simp add: host_defs Let_def split: option.splits)
  then show ?thesis
    using Module_settles assms(2)
    by (cases "i < length (pending p)"; cases "pending p ! i")
       (auto simp: finish_task_def split_beta)
qed

lemma run_no_grant:
  assumes "\<not> list_ex grants evs" and "stream (now p) = None"
  shows "stream (now (run evs p)) = None"
  using assms
proof (induction evs arbitrary: p)
  case Nil
  then show ?case by (simp add: run_def)
next
  case (Cons ev evs)
  then have "stream (now (fire ev p)) = None" by (simp add: fire_no_grant)
  with Cons have "stream (now (run evs (fire ev p))) = None" by simp
  then show ?case by (simp add: run_def)
qed

text \<open>Tracks out of the controller's reach stay live.\<close>

lemma out_of_reach_click: "out_of_reach ts w \<Longrightarrow> out_of_reach ts (start_click w)"
  by (simp add: start_click_eq out_of_reach_def split: option.splits)

lemma out_of_reach_stop: "out_of_reach ts w \<Longrightarrow> out_of_reach ts (snd (stop w))"
  by (cases "stream w") (auto simp: stop_undefined stop_defined out_of_reach_def)

lemma out_of_reach_permission:
  "out_of_reach ts w \<Longrightarrow> out_of_reach ts (snd (start_after_permission reply w))"
  by (cases reply)
     (auto simp: host_defs Let_def out_of_reach_def split: option.splits)

lemma out_of_reach_module:
  "out_of_reach ts w \<Longrightarrow> out_of_reach ts (snd (start_after_module reply ctor fr w))"
  by (auto simp: host_defs Let_def out_of_reach_def split: option.splits)

lemma run_out_of_reach:
  assumes "out_of_reach ts (now p)"
  shows "out_of_reach ts (now (run evs p))"
  using assms
  by (rule run_invariant [where I = "out_of_reach ts"])
     (simp_all add: out_of_reach_click out_of_reach_stop out_of_reach_permission
        out_of_reach_module)

lemma two_starts_out_of_reach:
  assumes "granted r1 n1" and "granted r2 n2"
  shows "out_of_reach (acquired w n1) (snd (start r2 (snd (start r1 w))))"
proof -
  define w1 where "w1 = snd (start r1 w)"
  have f1: "tracks_made w1 = tracks_made w + n1"
    "\<forall>t \<in> set (acquired w n1). ready w1 t = Live"
    using assms(1) by (simp_all add: w1_def start_granted)
  have "out_of_reach (acquired w n1) (snd (start r2 w1))"
    using f1 by (auto simp: start_granted [OF assms(2)] out_of_reach_def acquired_def)
  then show ?thesis by (simp add: w1_def)
qed

subsection \<open>The calls of one Start\<close>

lemma calls_cases:
  "calls_of_start r w =
     (case permission r of
        Inl e \<Rightarrow> [GetUserMedia, GetUserMedia_settled (Inl e)]
      | Inr n \<Rightarrow>
          [GetUserMedia, GetUserMedia_settled (Inr (streams_made w)),
           New_AudioContext (contexts_made w),
           CreateMediaStreamSource (contexts_made w) (streams_made w)] @
          (if n = 0 then []
           else [AddModule (contexts_made w) ''processor.js'', AddModule_settled (module_load r)] @
             (case module_load r of
                Some e \<Rightarrow> []
              | None \<Rightarrow>
                  [New_AudioWorkletNode (contexts_made w) ''processor''] @
                  (case processor_ctor r of
                     Some e \<Rightarrow> []
                   | None \<Rightarrow>
                       [Connect (MediaStreamSource (contexts_made w) (streams_made w))
                          (WorkletNode (contexts_made w) ''processor''),
                        Connect (WorkletNode (contexts_made w) ''processor'')
                          (Destination (contexts_made w)),
                        Set_stop_disabled False,
                        Log ''Your microphone audio is being used.'']))))"
  by (simp add: calls_of_start_def start_def host_defs Let_def
           split: sum.splits option.splits)

lemma start_completes_iff: "fst (start r w) = Completed \<longleftrightarrow> (\<exists>n. granted r n)"
  by (auto simp: start_def host_defs Let_def granted_def split: sum.splits option.splits)

lemma suspended_quiet:
  "stop_disabled (snd (start_after_permission reply (start_click w))) = stop_disabled w
   \<and> logged (snd (start_after_permission reply (start_click w))) = logged w
   \<and> connections (snd (start_after_permission reply (start_click w))) = connections w"
  by (simp add: host_defs Let_def split: sum.splits)

text \<open>\<open>waits_for\<close> by positions: before every \<open>Q\<close> call there is a \<open>P\<close> call.\<close>

lemma waits_for_iff:
  "waits_for P Q h \<longleftrightarrow> (\<forall>i < length h. Q (h ! i) \<longrightarrow> (\<exists>j < i. P (h ! j)))"
proof (induction h)
  case Nil
  then show ?case by simp
next
  case (Cons x xs)
  show ?case
    by (auto simp: Cons.IH All_less_Suc2 Ex_less_Suc2 nth_Cons split: nat.splits)
qed

subsection \<open>A Start on a page with pending listeners, and a Start that fails\<close>

text \<open>
  The three events of one Start, delivered in a row, act as \<open>start\<close> whatever listeners are
  pending, and an uncaught error reaches the browser's default handler.
\<close>

lemma start_on_busy_page:
  "run [Click_start, Permission_settles (length ps) (permission r),
        Module_settles (length ps) (module_load r) (processor_ctor r)]
       \<lparr>now = w, pending = ps, unhandled = us\<rparr> =
   \<lparr>now = snd (start r w), pending = ps,
    unhandled = (case fst (start r w) of Completed \<Rightarrow> us | Uncaught e \<Rightarrow> us @ [e])\<rparr>"
  by (auto simp: run_def start_def finish_task_def nth_append
           split: prod.splits progress.splits outcome.splits)


text \<open>How a Start can fail, and what it has done by then.\<close>

lemma start_failure_cases:
  assumes "fst (start r w) = Uncaught e"
  shows "permission r = Inl e
       \<or> (permission r = Inr 0 \<and> e = DOMException ''InvalidStateError'')
       \<or> (\<exists>n. permission r = Inr n \<and> 0 < n \<and> module_load r = Some e)
       \<or> (\<exists>n. permission r = Inr n \<and> 0 < n \<and> module_load r = None \<and> processor_ctor r = Some e)"
  using assms
  by (auto simp: start_def host_defs Let_def split: sum.splits option.splits if_splits)

lemma start_fails_after_grant:
  assumes "fst (start r w) = Uncaught e" and "permission r = Inr n"
  shows "stop_disabled (snd (start r w)) = stop_disabled w"
    and "logged (snd (start r w)) = logged w"
    and "connections (snd (start r w)) = connections w"
    and "stream (snd (start r w)) = Some (streams_made w)"
    and "tracks_of (snd (start r w)) (streams_made w) = acquired w n"
    and "ready (snd (start r w)) = (\<lambda>t. if t \<in> set (acquired w n) then Live else ready w t)"
  using assms
  by (auto simp: start_def host_defs Let_def acquired_def fun_eq_iff
           split: sum.splits option.splits if_splits)

lemma failing_module_segment:
  assumes "fst (start_after_module reply ctor fr w) = Uncaught e"
  shows "stop_disabled (snd (start_after_module reply ctor fr w)) = stop_disabled w"
    and "logged (snd (start_after_module reply ctor fr w)) = logged w"
    and "connections (snd (start_after_module reply ctor fr w)) = connections w"
    and "stream (snd (start_after_module reply ctor fr w)) = stream w"
    and "ready (snd (start_after_module reply ctor fr w)) = ready w"
  using assms
  by (auto simp: host_defs Let_def split: option.splits)

lemma permission_segment_quiet:
  "stop_disabled (snd (start_after_permission reply w)) = stop_disabled w"
  "logged (snd (start_after_permission reply w)) = logged w"
  "connections (snd (start_after_permission reply w)) = connections w"
  by (simp_all add: host_defs Let_def split: sum.splits)

section \<open>The claims\<close>

text \<open>
  A Start is one run of the start listener from its click to its end with no other listener
  run at its \<open>await\<close> points (\<open>start\<close>); a Stop is one run of the stop listener (\<open>stop\<close>).
  Claims about every execution are stated on the page, where listeners interleave (\<open>run\<close>).
\<close>

subsection \<open>Start\<close>




text \<open>
  Claim C6. A Start whose permission request is rejected ends with that error uncaught,
  leaves the state as it was (so Idle stays Idle) and leaves the stop control as it was (so
  disabled stays disabled): the only calls it makes are the permission request and its
  settling, and none of them touches the stop control.
\<close>

theorem start_rejected_leaves_idle:
  assumes "permission r = Inl e"
  shows "fst (start r w) = Uncaught e
       \<and> state_of (snd (start r w)) = state_of w
       \<and> stop_disabled (snd (start r w)) = stop_disabled w
       \<and> calls_of_start r w = [GetUserMedia, GetUserMedia_settled (Inl e)]"
  using assms by (simp add: start_rejected calls_of_start_def)

theorem start_rejected_leaves_idle_witness:
  "permission denied = Inl (DOMException ''NotAllowedError'')
   \<and> state_of (page_load True) = Idle \<and> stop_disabled (page_load True)
   \<and> fst (start denied (page_load True)) = Uncaught (DOMException ''NotAllowedError'')
   \<and> state_of (snd (start denied (page_load True))) = Idle
   \<and> stop_disabled (snd (start denied (page_load True)))"
  using start_rejected_leaves_idle [of denied "DOMException ''NotAllowedError''" "page_load True"]
  by (simp add: denied_def idle_page_load page_load_simps)

text \<open>
  Claim C4, as stated, says that every failing Start leaves the shared stream reference as
  it was. It does not when the module load fails: line 8 has assigned the granted stream
  before line 14 awaits the module. On the freshly loaded page the reference goes from
  undefined to the new stream, whose track is live.
\<close>

theorem failed_start_changes_stream:
  "fst (start module_fails (page_load True)) = Uncaught (DOMException ''AbortError'')
   \<and> stream (page_load True) = None
   \<and> stream (snd (start module_fails (page_load True))) = Some 0
   \<and> tracks_of (snd (start module_fails (page_load True))) 0 = [0]
   \<and> ready (snd (start module_fails (page_load True))) 0 = Live"
  using start_module_fails [of module_fails 1 "DOMException ''AbortError''" "page_load True"]
  by (simp add: module_fails_def page_load_simps acquired_def)

text \<open>
  Claim C4, amended. Every Start that fails, and during which no other listener runs, ends
  with its error uncaught, and the error reaches the browser's default handler; the stop
  control, the status output and the audio graph are as before. When the permission
  request is rejected (denial, no device) the whole state, the shared stream reference
  included, is as before, the history of calls apart. When the Start fails after the grant
  (the module load fails, or the source or the worklet node cannot be created), the shared
  stream reference holds the newly granted stream and its tracks are live; if the state
  was Idle before, it is Idle after. With other listeners in between, each segment of a
  failing Start still leaves the stop control, the status output and the graph as it found
  them, and the failing last segment leaves the stream reference as it found it.
\<close>

theorem failed_start_effects:
  assumes "fst (start r w) = Uncaught e"
  shows "stop_disabled (snd (start r w)) = stop_disabled w
       \<and> logged (snd (start r w)) = logged w
       \<and> connections (snd (start r w)) = connections w
       \<and> run [Click_start, Permission_settles (length ps) (permission r),
               Module_settles (length ps) (module_load r) (processor_ctor r)]
              \<lparr>now = w, pending = ps, unhandled = us\<rparr> =
           \<lparr>now = snd (start r w), pending = ps, unhandled = us @ [e]\<rparr>
       \<and> (case permission r of
             Inl e' \<Rightarrow>
               e = e'
             \<and> snd (start r w) =
                 w\<lparr>history := history w @ [GetUserMedia, GetUserMedia_settled (Inl e')]\<rparr>
             \<and> stream (snd (start r w)) = stream w
             \<and> state_of (snd (start r w)) = state_of w
           | Inr n \<Rightarrow>
               stream (snd (start r w)) = Some (streams_made w)
             \<and> tracks_of (snd (start r w)) (streams_made w) = acquired w n
             \<and> (\<forall>t \<in> set (acquired w n). ready (snd (start r w)) t = Live)
             \<and> (\<forall>e'. 0 < n \<and> module_load r = Some e' \<longrightarrow> e = e')
             \<and> (state_of w = Idle \<and> sources_known w \<longrightarrow> state_of (snd (start r w)) = Idle))
       \<and> stop_disabled (snd (start_after_permission reply w')) = stop_disabled w'
       \<and> logged (snd (start_after_permission reply w')) = logged w'
       \<and> connections (snd (start_after_permission reply w')) = connections w'
       \<and> (fst (start_after_module reply' ctor fr w') \<noteq> Completed \<longrightarrow>
            stop_disabled (snd (start_after_module reply' ctor fr w')) = stop_disabled w'
          \<and> logged (snd (start_after_module reply' ctor fr w')) = logged w'
          \<and> connections (snd (start_after_module reply' ctor fr w')) = connections w'
          \<and> stream (snd (start_after_module reply' ctor fr w')) = stream w')"
proof -
  have seg: "stop_disabled (snd (start_after_module reply' ctor fr w')) = stop_disabled w'
          \<and> logged (snd (start_after_module reply' ctor fr w')) = logged w'
          \<and> connections (snd (start_after_module reply' ctor fr w')) = connections w'
          \<and> stream (snd (start_after_module reply' ctor fr w')) = stream w'"
    if "fst (start_after_module reply' ctor fr w') \<noteq> Completed"
  proof -
    from that obtain x where "fst (start_after_module reply' ctor fr w') = Uncaught x"
      by (cases "fst (start_after_module reply' ctor fr w')") auto
    then show ?thesis by (simp add: failing_module_segment)
  qed
  note quiet = permission_segment_quiet [of reply w']
  have page: "run [Click_start, Permission_settles (length ps) (permission r),
               Module_settles (length ps) (module_load r) (processor_ctor r)]
              \<lparr>now = w, pending = ps, unhandled = us\<rparr> =
           \<lparr>now = snd (start r w), pending = ps, unhandled = us @ [e]\<rparr>"
    using assms by (simp add: start_on_busy_page)
  show ?thesis
  proof (cases "permission r")
    case (Inl e')
    then have eq: "start r w =
        (Uncaught e', w\<lparr>history := history w @ [GetUserMedia, GetUserMedia_settled (Inl e')]\<rparr>)"
      by (rule start_rejected)
    with assms have "e = e'" by simp
    then show ?thesis using Inl eq page seg quiet by simp
  next
    case (Inr n)
    note f = start_fails_after_grant [OF assms Inr]
    have live: "\<forall>t \<in> set (acquired w n). ready (snd (start r w)) t = Live"
      by (simp add: f(6))
    have err: "\<forall>e'. 0 < n \<and> module_load r = Some e' \<longrightarrow> e = e'"
      using start_failure_cases [OF assms] Inr by auto
    have idle: "state_of (snd (start r w)) = Idle" if "sources_known w"
    proof -
      from that have "\<not> graph_connected w (streams_made w)" by (rule sources_known_fresh)
      then have "\<not> graph_connected (snd (start r w)) (streams_made w)"
        by (simp add: graph_connected_def f(3))
      then show ?thesis by (simp add: state_of_def f(4))
    qed
    show ?thesis using Inr f(1-5) live err idle page seg quiet by simp
  qed
qed

theorem failed_start_effects_witness:
  "fst (start denied (page_load True)) = Uncaught (DOMException ''NotAllowedError'')
   \<and> stream (snd (start denied (page_load True))) = None
   \<and> state_of (snd (start denied (page_load True))) = Idle
   \<and> fst (start module_fails (page_load True)) = Uncaught (DOMException ''AbortError'')
   \<and> state_of (page_load True) = Idle \<and> sources_known (page_load True)
   \<and> stop_disabled (snd (start module_fails (page_load True)))
   \<and> logged (snd (start module_fails (page_load True))) = []
   \<and> connections (snd (start module_fails (page_load True))) = []
   \<and> stream (snd (start module_fails (page_load True))) = Some 0
   \<and> ready (snd (start module_fails (page_load True))) 0 = Live
   \<and> state_of (snd (start module_fails (page_load True))) = Idle
   \<and> fst (start ctor_fails (page_load True)) = Uncaught (DOMException ''InvalidStateError'')
   \<and> stop_disabled (snd (start ctor_fails (page_load True)))
   \<and> stream (snd (start ctor_fails (page_load True))) = Some 0
   \<and> state_of (snd (start ctor_fails (page_load True))) = Idle
   \<and> unhandled (run [Click_start, Permission_settles 0 (permission ctor_fails),
        Module_settles 0 (module_load ctor_fails) (processor_ctor ctor_fails)] (fresh_page True)) =
       [DOMException ''InvalidStateError'']"
proof -
  have a: "fst (start denied (page_load True)) = Uncaught (DOMException ''NotAllowedError'')"
    using start_rejected [of denied "DOMException ''NotAllowedError''" "page_load True"]
    by (simp add: denied_def)
  have b: "fst (start module_fails (page_load True)) = Uncaught (DOMException ''AbortError'')"
    using start_module_fails [of module_fails 1 "DOMException ''AbortError''" "page_load True"]
    by (simp add: module_fails_def)
  have c: "fst (start ctor_fails (page_load True)) = Uncaught (DOMException ''InvalidStateError'')"
    by (simp add: start_def host_defs ctor_fails_def Let_def)
  have p: "permission denied = Inl (DOMException ''NotAllowedError'')"
    "permission module_fails = Inr 1" "permission ctor_fails = Inr 1"
    by (simp_all add: denied_def module_fails_def ctor_fails_def)
  show ?thesis
    using failed_start_effects [OF a, of "[]" "[]"] failed_start_effects [OF b, of "[]" "[]"]
      failed_start_effects [OF c, of "[]" "[]"] a b c p
      sources_known_page_load [of True] idle_page_load [of True]
    by (simp add: acquired_def page_load_simps fresh_page_def)
qed

text \<open>
  Claim C7. The calls of one Start are ordered. No \<open>connect\<close> is made until the permission
  request has been granted and until the module has loaded; the source is connected before
  the output; the stop control is not enabled and no status is logged until the graph
  reaches the output. While the listener is suspended at the second \<open>await\<close> the stop
  control, the status output and the graph are as before the click. A Start that ends
  normally has connected the graph of its stream, enabled the stop control and logged; a
  Start that ends with an error has done none of the three.
\<close>

theorem start_order:
  "waits_for permission_resolved is_connect (calls_of_start r w)
   \<and> waits_for module_loaded is_connect (calls_of_start r w)
   \<and> waits_for connects_source connects_output (calls_of_start r w)
   \<and> waits_for connects_output enables_stop (calls_of_start r w)
   \<and> waits_for connects_output is_log (calls_of_start r w)
   \<and> stop_disabled (snd (start_after_permission (permission r) (start_click w))) = stop_disabled w
   \<and> logged (snd (start_after_permission (permission r) (start_click w))) = logged w
   \<and> connections (snd (start_after_permission (permission r) (start_click w))) = connections w
   \<and> (fst (start r w) = Completed \<longrightarrow>
        (\<exists>s. stream (snd (start r w)) = Some s \<and> graph_connected (snd (start r w)) s)
      \<and> list_ex connects_output (calls_of_start r w)
      \<and> list_ex enables_stop (calls_of_start r w)
      \<and> list_ex is_log (calls_of_start r w))
   \<and> (fst (start r w) \<noteq> Completed \<longrightarrow>
        \<not> list_ex is_connect (calls_of_start r w)
      \<and> \<not> list_ex enables_stop (calls_of_start r w)
      \<and> \<not> list_ex is_log (calls_of_start r w))"
proof -
  have order: "waits_for permission_resolved is_connect (calls_of_start r w)
      \<and> waits_for module_loaded is_connect (calls_of_start r w)
      \<and> waits_for connects_source connects_output (calls_of_start r w)
      \<and> waits_for connects_output enables_stop (calls_of_start r w)
      \<and> waits_for connects_output is_log (calls_of_start r w)"
    by (simp add: calls_cases split: sum.splits option.splits)
  have finished: "(\<exists>s. stream (snd (start r w)) = Some s \<and> graph_connected (snd (start r w)) s)
      \<and> list_ex connects_output (calls_of_start r w)
      \<and> list_ex enables_stop (calls_of_start r w)
      \<and> list_ex is_log (calls_of_start r w)"
    if "fst (start r w) = Completed"
  proof -
    from that obtain n where g: "granted r n" by (auto simp: start_completes_iff)
    then have "graph_connected (snd (start r w)) (streams_made w)"
      by (simp add: start_granted graph_connected_def)
    moreover have "stream (snd (start r w)) = Some (streams_made w)"
      using g by (simp add: start_granted)
    moreover have "permission r = Inr n" "n \<noteq> 0" "module_load r = None" "processor_ctor r = None"
      using g by (simp_all add: granted_def)
    ultimately show ?thesis by (simp add: calls_cases)
  qed
  have failed: "\<not> list_ex is_connect (calls_of_start r w)
      \<and> \<not> list_ex enables_stop (calls_of_start r w)
      \<and> \<not> list_ex is_log (calls_of_start r w)"
    if "fst (start r w) \<noteq> Completed"
  proof -
    from that have "\<forall>n. \<not> granted r n" by (simp add: start_completes_iff)
    then show ?thesis
      by (auto simp: calls_cases granted_def split: sum.splits option.splits)
  qed
  show ?thesis using order suspended_quiet [of "permission r" w] finished failed by blast
qed

theorem start_order_witness:
  "fst (start one_track (page_load True)) = Completed
   \<and> calls_of_start one_track (page_load True) =
       [GetUserMedia, GetUserMedia_settled (Inr 0), New_AudioContext 0,
        CreateMediaStreamSource 0 0, AddModule 0 ''processor.js'', AddModule_settled None,
        New_AudioWorkletNode 0 ''processor'',
        Connect (MediaStreamSource 0 0) (WorkletNode 0 ''processor''),
        Connect (WorkletNode 0 ''processor'') (Destination 0),
        Set_stop_disabled False, Log ''Your microphone audio is being used.'']
   \<and> waits_for permission_resolved is_connect (calls_of_start one_track (page_load True))
   \<and> waits_for module_loaded is_connect (calls_of_start one_track (page_load True))
   \<and> waits_for connects_output enables_stop (calls_of_start one_track (page_load True))
   \<and> waits_for connects_output is_log (calls_of_start one_track (page_load True))
   \<and> list_ex connects_output (calls_of_start one_track (page_load True))
   \<and> fst (start module_fails (page_load True)) \<noteq> Completed
   \<and> \<not> list_ex enables_stop (calls_of_start module_fails (page_load True))"
proof -
  have a: "fst (start one_track (page_load True)) = Completed"
    using granted_one_track by (simp add: start_granted)
  have b: "calls_of_start one_track (page_load True) =
       [GetUserMedia, GetUserMedia_settled (Inr 0), New_AudioContext 0,
        CreateMediaStreamSource 0 0, AddModule 0 ''processor.js'', AddModule_settled None,
        New_AudioWorkletNode 0 ''processor'',
        Connect (MediaStreamSource 0 0) (WorkletNode 0 ''processor''),
        Connect (WorkletNode 0 ''processor'') (Destination 0),
        Set_stop_disabled False, Log ''Your microphone audio is being used.'']"
    by (simp add: calls_cases one_track_def page_load_simps)
  have c: "fst (start module_fails (page_load True)) \<noteq> Completed"
    using start_module_fails [of module_fails 1 "DOMException ''AbortError''" "page_load True"]
    by (simp add: module_fails_def)
  show ?thesis
    using start_order [of one_track "page_load True"] start_order [of module_fails "page_load True"] a b c
    by simp
qed

subsection \<open>Stop\<close>

text \<open>
  Claim C2. A Stop in state Capturing ends normally, leaves the controller in state Idle
  and ends every track of the stream the controller holds. For a Stop that follows a
  successful Start these are the tracks that Start acquired: there is at least one, they
  are live after the Start and ended after the Stop.
\<close>

theorem stop_capturing_releases:
  "(state_of w = Capturing \<longrightarrow>
      fst (stop w) = Completed
    \<and> state_of (snd (stop w)) = Idle
    \<and> (\<exists>s. stream w = Some s
          \<and> (\<forall>t \<in> set (tracks_of w s). ready (snd (stop w)) t = Ended)))
   \<and> (granted r n \<longrightarrow>
      state_of (snd (start r w0)) = Capturing
    \<and> acquired w0 n \<noteq> []
    \<and> (\<forall>t \<in> set (acquired w0 n). ready (snd (start r w0)) t = Live)
    \<and> (\<forall>t \<in> set (acquired w0 n). ready (snd (stop (snd (start r w0)))) t = Ended))"
proof (intro conjI impI)
  assume c: "state_of w = Capturing"
  then obtain s where s: "stream w = Some s" by (rule capturing_holds_stream)
  show "fst (stop w) = Completed" using s by (simp add: stop_defined)
  show "state_of (snd (stop w)) = Idle" using s by (rule stop_ends_state)
  show "\<exists>s. stream w = Some s \<and> (\<forall>t \<in> set (tracks_of w s). ready (snd (stop w)) t = Ended)"
    using s by (simp add: stop_defined)
next
  assume g: "granted r n"
  show "state_of (snd (start r w0)) = Capturing" using g by (rule state_after_granted)
  show "acquired w0 n \<noteq> []" using g by (simp add: granted_def acquired_nonempty)
  show "\<forall>t \<in> set (acquired w0 n). ready (snd (start r w0)) t = Live"
    using g by (simp add: start_granted)
  have "stream (snd (start r w0)) = Some (streams_made w0)"
    using g by (simp add: start_granted)
  then show "\<forall>t \<in> set (acquired w0 n). ready (snd (stop (snd (start r w0)))) t = Ended"
    using g by (simp add: stop_defined start_granted)
qed

theorem stop_capturing_releases_witness:
  "state_of (snd (start one_track (page_load True))) = Capturing
   \<and> fst (stop (snd (start one_track (page_load True)))) = Completed
   \<and> state_of (snd (stop (snd (start one_track (page_load True))))) = Idle
   \<and> acquired (page_load True) 1 = [0]
   \<and> ready (snd (start one_track (page_load True))) 0 = Live
   \<and> ready (snd (stop (snd (start one_track (page_load True))))) 0 = Ended"
  using stop_capturing_releases
          [of "snd (start one_track (page_load True))" one_track 1 "page_load True"]
    granted_one_track
  by (simp add: acquired_def page_load_simps)

text \<open>
  Claim C8. In the scenario of a successful Start followed by a Stop, the Start adds
  exactly the message \<open>Your microphone audio is being used.\<close> to the status output, the Stop
  adds exactly the message \<open>Your microphone audio is not used anymore.\<close>, both end normally,
  and the final state is Idle.
\<close>

theorem start_then_stop_messages:
  assumes "granted r n"
  shows "fst (start r w) = Completed
       \<and> logged (snd (start r w)) = logged w @ [''Your microphone audio is being used.'']
       \<and> fst (stop (snd (start r w))) = Completed
       \<and> logged (snd (stop (snd (start r w)))) =
           logged (snd (start r w)) @ [''Your microphone audio is not used anymore.'']
       \<and> state_of (snd (stop (snd (start r w)))) = Idle"
proof -
  define w1 where "w1 = snd (start r w)"
  have s: "stream w1 = Some (streams_made w)"
    using assms by (simp add: w1_def start_granted)
  have a: "fst (start r w) = Completed"
    and b: "logged w1 = logged w @ [''Your microphone audio is being used.'']"
    using assms by (simp_all add: w1_def start_granted)
  have c: "fst (stop w1) = Completed"
    and d: "logged (snd (stop w1)) = logged w1 @ [''Your microphone audio is not used anymore.'']"
    by (simp_all add: stop_defined [OF s])
  have e: "state_of (snd (stop w1)) = Idle"
    using s by (rule stop_ends_state)
  show ?thesis using a b c d e unfolding w1_def by simp
qed

theorem start_then_stop_messages_witness:
  "granted one_track 1
   \<and> logged (snd (start one_track (page_load True))) = [''Your microphone audio is being used.'']
   \<and> logged (snd (stop (snd (start one_track (page_load True))))) =
       [''Your microphone audio is being used.'', ''Your microphone audio is not used anymore.'']
   \<and> state_of (snd (stop (snd (start one_track (page_load True))))) = Idle"
  using start_then_stop_messages [OF granted_one_track, of "page_load True"] granted_one_track
  by (simp add: page_load_simps)

text \<open>
  Claim C9. After a successful Start and a Stop, the shared stream reference still holds
  the stream, now with every track ended. A second Stop therefore ends normally (no
  \<open>TypeError\<close>): it calls \<open>stop\<close> on each of those tracks again, which leaves every track as
  it was, and it adds the stop message once more.
\<close>

theorem second_stop_completes:
  assumes "granted r n"
  shows "let w1 = snd (start r w); w2 = snd (stop w1); w3 = snd (stop w2)
         in fst (stop w1) = Completed
          \<and> stream w2 = stream w1
          \<and> (\<forall>t \<in> set (acquired w n). ready w2 t = Ended)
          \<and> fst (stop w2) = Completed
          \<and> ready w3 = ready w2
          \<and> logged w3 = logged w2 @ [''Your microphone audio is not used anymore.'']
          \<and> history w3 = history w2 @ map Track_stop (acquired w n) @
                [Log ''Your microphone audio is not used anymore.'']"
proof -
  define w1 where "w1 = snd (start r w)"
  define w2 where "w2 = snd (stop w1)"
  define w3 where "w3 = snd (stop w2)"
  have s1: "stream w1 = Some (streams_made w)"
    and t1: "tracks_of w1 (streams_made w) = acquired w n"
    using assms by (simp_all add: w1_def start_granted)
  have c1: "fst (stop w1) = Completed"
    and s2: "stream w2 = Some (streams_made w)"
    and t2: "tracks_of w2 (streams_made w) = acquired w n"
    and r2: "\<forall>t \<in> set (acquired w n). ready w2 t = Ended"
    using s1 t1 by (simp_all add: w2_def stop_defined [OF s1])
  have c2: "fst (stop w2) = Completed"
    and l3: "logged w3 = logged w2 @ [''Your microphone audio is not used anymore.'']"
    and h3: "history w3 = history w2 @ map Track_stop (acquired w n) @
      [Log ''Your microphone audio is not used anymore.'']"
    using t2 by (simp_all add: w3_def stop_defined [OF s2])
  have r3: "ready w3 = ready w2"
    using t2 r2 by (auto simp: w3_def stop_defined [OF s2] fun_eq_iff)
  show ?thesis
    using c1 s1 s2 r2 c2 r3 l3 h3 unfolding Let_def w1_def w2_def w3_def by simp
qed

theorem second_stop_completes_witness:
  "granted one_track 1
   \<and> fst (stop (snd (stop (snd (start one_track (page_load True)))))) = Completed
   \<and> ready (snd (stop (snd (start one_track (page_load True))))) 0 = Ended
   \<and> ready (snd (stop (snd (stop (snd (start one_track (page_load True))))))) =
       ready (snd (stop (snd (start one_track (page_load True)))))
   \<and> logged (snd (stop (snd (stop (snd (start one_track (page_load True))))))) =
       [''Your microphone audio is being used.'', ''Your microphone audio is not used anymore.'',
        ''Your microphone audio is not used anymore.'']"
proof -
  have l: "logged (snd (stop (snd (start one_track (page_load True))))) =
      [''Your microphone audio is being used.'', ''Your microphone audio is not used anymore.'']"
    using start_granted [OF granted_one_track, of "page_load True"]
    by (simp add: stop_def fold_track_stop log_def record_call_def page_load_simps)
  show ?thesis
    using second_stop_completes [OF granted_one_track, of "page_load True"] granted_one_track l
    by (simp add: Let_def acquired_def page_load_simps)
qed

text \<open>
  Claim C3, as stated, says that a Stop raises whenever no Start has yet succeeded. It does
  not after a Start that failed at the module load: that Start ended with an error, the
  state is Idle, and yet \<open>stream\<close> is defined, so the Stop ends normally.
\<close>

theorem stop_after_failed_start_completes:
  "fst (start module_fails (page_load True)) = Uncaught (DOMException ''AbortError'')
   \<and> state_of (snd (start module_fails (page_load True))) = Idle
   \<and> fst (stop (snd (start module_fails (page_load True)))) = Completed
   \<and> fst (stop (snd (start module_fails (page_load True)))) \<noteq> Uncaught TypeError"
proof -
  have eq: "stream (snd (start module_fails (page_load True))) = Some 0"
    and out: "fst (start module_fails (page_load True)) = Uncaught (DOMException ''AbortError'')"
    and con: "connections (snd (start module_fails (page_load True))) = []"
    using start_module_fails [of module_fails 1 "DOMException ''AbortError''" "page_load True"]
    by (simp_all add: module_fails_def page_load_simps)
  have "state_of (snd (start module_fails (page_load True))) = Idle"
    using eq con by (simp add: state_of_def graph_connected_def)
  then show ?thesis using out by (simp add: stop_defined [OF eq])
qed

text \<open>
  Claim C3, amended. A Stop raises a \<open>TypeError\<close> exactly when \<open>stream\<close> is undefined; the
  error is uncaught and nothing else changes. On a freshly loaded page \<open>stream\<close> is
  undefined along every execution in which no permission request has been granted, and a
  click on the stop button then adds the \<open>TypeError\<close> to the errors that reach the
  browser's default handler. Once \<open>stream\<close> is defined a Stop ends normally.
\<close>

theorem stop_raises_iff_undefined:
  "(stream w = None \<longrightarrow> stop w = (Uncaught TypeError, w))
   \<and> (stream w \<noteq> None \<longrightarrow> fst (stop w) = Completed)
   \<and> (\<not> list_ex grants evs \<longrightarrow>
        stream (now (run evs (fresh_page d))) = None
      \<and> fire Click_stop (run evs (fresh_page d)) =
          (run evs (fresh_page d))\<lparr>unhandled := unhandled (run evs (fresh_page d)) @ [TypeError]\<rparr>)"
proof (intro conjI impI)
  assume "stream w = None"
  then show "stop w = (Uncaught TypeError, w)" by (rule stop_undefined)
next
  assume "stream w \<noteq> None"
  then obtain s where "stream w = Some s" by auto
  then show "fst (stop w) = Completed" by (simp add: stop_defined)
next
  assume "\<not> list_ex grants evs"
  moreover have "stream (now (fresh_page d)) = None"
    by (simp add: fresh_page_def page_load_simps)
  ultimately show n: "stream (now (run evs (fresh_page d))) = None" by (rule run_no_grant)
  show "fire Click_stop (run evs (fresh_page d)) =
      (run evs (fresh_page d))\<lparr>unhandled := unhandled (run evs (fresh_page d)) @ [TypeError]\<rparr>"
    by (simp add: stop_undefined [OF n])
qed

theorem stop_raises_iff_undefined_witness:
  "stream (page_load True) = None
   \<and> stop (page_load True) = (Uncaught TypeError, page_load True)
   \<and> stream (snd (start module_fails (page_load True))) \<noteq> None
   \<and> fst (stop (snd (start module_fails (page_load True)))) = Completed
   \<and> \<not> list_ex grants [Click_start, Permission_settles 0 (permission denied)]
   \<and> unhandled (fire Click_stop
        (run [Click_start, Permission_settles 0 (permission denied)] (fresh_page True))) =
       [DOMException ''NotAllowedError'', TypeError]"
proof -
  have eq: "stream (snd (start module_fails (page_load True))) = Some 0"
    using start_module_fails [of module_fails 1 "DOMException ''AbortError''" "page_load True"]
    by (simp add: module_fails_def page_load_simps)
  have u: "unhandled (run [Click_start, Permission_settles 0 (permission denied)] (fresh_page True)) =
      [DOMException ''NotAllowedError'']"
    by (simp add: run_def fresh_page_def denied_def host_defs finish_task_def)
  show ?thesis
    using stop_raises_iff_undefined [of "page_load True" "[Click_start, Permission_settles 0 (permission denied)]" True]
      stop_raises_iff_undefined [of "snd (start module_fails (page_load True))" "[]" True]
      eq u
    by (simp add: page_load_simps denied_def)
qed

subsection \<open>Two Starts in a row\<close>

text \<open>
  Claim C5. Of two successful Starts with no Stop between them, the second ends normally
  (nothing guards it) and replaces the stream in \<open>stream\<close> by its own. The tracks of the
  first stream, of which there is at least one, are live after the second Start, and they
  stay live along every later execution of the page, whatever listeners are pending: no
  Stop reaches them.
\<close>

theorem second_start_leaks_first:
  assumes "granted r1 n1" and "granted r2 n2"
  shows "let w1 = snd (start r1 w); w2 = snd (start r2 w1)
         in fst (start r2 w1) = Completed
          \<and> stream w1 = Some (streams_made w)
          \<and> stream w2 = Some (Suc (streams_made w))
          \<and> tracks_of w2 (streams_made w) = acquired w n1
          \<and> acquired w n1 \<noteq> []
          \<and> (\<forall>t \<in> set (acquired w n1). ready w2 t = Live)
          \<and> (\<forall>t \<in> set (acquired w n1).
                ready (now (run evs \<lparr>now = w2, pending = ps, unhandled = us\<rparr>)) t = Live)"
proof -
  define w1 where "w1 = snd (start r1 w)"
  define w2 where "w2 = snd (start r2 w1)"
  have a: "stream w1 = Some (streams_made w)"
    and b: "streams_made w1 = Suc (streams_made w)"
    and c: "tracks_of w1 (streams_made w) = acquired w n1"
    using assms(1) by (simp_all add: w1_def start_granted)
  have d: "fst (start r2 w1) = Completed"
    and e: "stream w2 = Some (Suc (streams_made w))"
    and f: "tracks_of w2 (streams_made w) = acquired w n1"
    using assms(2) b c by (simp_all add: w2_def start_granted)
  have g: "acquired w n1 \<noteq> []"
    using assms(1) by (simp add: granted_def acquired_nonempty)
  have reach: "out_of_reach (acquired w n1) w2"
    unfolding w2_def w1_def using assms by (rule two_starts_out_of_reach)
  then have h: "\<forall>t \<in> set (acquired w n1). ready w2 t = Live"
    by (simp add: out_of_reach_def)
  have "out_of_reach (acquired w n1) (now \<lparr>now = w2, pending = ps, unhandled = us\<rparr>)"
    using reach by simp
  then have "out_of_reach (acquired w n1) (now (run evs \<lparr>now = w2, pending = ps, unhandled = us\<rparr>))"
    by (rule run_out_of_reach)
  then have i: "\<forall>t \<in> set (acquired w n1).
      ready (now (run evs \<lparr>now = w2, pending = ps, unhandled = us\<rparr>)) t = Live"
    by (simp add: out_of_reach_def)
  show ?thesis
    using a d e f g h i unfolding Let_def w1_def w2_def by simp
qed

theorem second_start_leaks_first_witness:
  "granted one_track 1
   \<and> stream (snd (start one_track (page_load True))) = Some 0
   \<and> stream (snd (start one_track (snd (start one_track (page_load True))))) = Some 1
   \<and> acquired (page_load True) 1 = [0]
   \<and> ready (snd (start one_track (snd (start one_track (page_load True))))) 0 = Live
   \<and> ready (now (run [Click_stop, Click_stop]
        \<lparr>now = snd (start one_track (snd (start one_track (page_load True)))),
         pending = [], unhandled = []\<rparr>)) 0 = Live"
  using second_start_leaks_first [OF granted_one_track granted_one_track,
          of "page_load True" "[Click_stop, Click_stop]" "[]" "[]"]
    granted_one_track
  by (simp add: Let_def acquired_def page_load_simps)

subsection \<open>The stop control\<close>

text \<open>
  Claim C10. Enabledness of the stop control is monotone: along every execution of the
  page, an enabled stop control stays enabled, in particular after a successful Start. A
  Stop in state Capturing returns the state to Idle and leaves the control enabled. From
  the page load on, the script never sets \<open>disabled\<close> to true.
\<close>

theorem stop_control_stays_enabled:
  "(\<not> stop_disabled (now p) \<longrightarrow> \<not> stop_disabled (now (run evs p)))
   \<and> (granted r n \<longrightarrow>
        \<not> stop_disabled (now (run evs \<lparr>now = snd (start r w0), pending = ps, unhandled = us\<rparr>)))
   \<and> (state_of w = Capturing \<and> \<not> stop_disabled w \<longrightarrow>
        state_of (snd (stop w)) = Idle \<and> \<not> stop_disabled (snd (stop w)))
   \<and> Set_stop_disabled True \<notin> set (history (now (run evs (fresh_page d))))"
proof (intro conjI impI)
  assume "\<not> stop_disabled (now p)"
  then show "\<not> stop_disabled (now (run evs p))" by (rule run_keeps_enabled)
next
  assume "granted r n"
  then have "\<not> stop_disabled (now \<lparr>now = snd (start r w0), pending = ps, unhandled = us\<rparr>)"
    by (simp add: start_granted)
  then show "\<not> stop_disabled (now (run evs \<lparr>now = snd (start r w0), pending = ps, unhandled = us\<rparr>))"
    by (rule run_keeps_enabled)
next
  assume a: "state_of w = Capturing \<and> \<not> stop_disabled w"
  then obtain s where "stream w = Some s" by (auto elim: capturing_holds_stream)
  then show "state_of (snd (stop w)) = Idle" by (rule stop_ends_state)
  show "\<not> stop_disabled (snd (stop w))" using a by (simp add: stop_keeps_enabled)
next
  have "Set_stop_disabled True \<notin> set (history (now (fresh_page d)))"
    by (simp add: fresh_page_def page_load_simps)
  then show "Set_stop_disabled True \<notin> set (history (now (run evs (fresh_page d))))"
    by (rule run_never_disables)
qed

theorem stop_control_stays_enabled_witness:
  "granted one_track 1
   \<and> state_of (snd (start one_track (page_load True))) = Capturing
   \<and> \<not> stop_disabled (snd (start one_track (page_load True)))
   \<and> state_of (snd (stop (snd (start one_track (page_load True))))) = Idle
   \<and> \<not> stop_disabled (snd (stop (snd (start one_track (page_load True)))))
   \<and> \<not> stop_disabled (now (run [Click_stop, Click_start, Permission_settles 0 (permission denied), Click_stop]
         \<lparr>now = snd (start one_track (page_load True)), pending = [], unhandled = []\<rparr>))"
proof -
  have c: "state_of (snd (start one_track (page_load True))) = Capturing"
    using granted_one_track by (rule state_after_granted)
  have e: "\<not> stop_disabled (snd (start one_track (page_load True)))"
    using granted_one_track by (simp add: start_granted)
  show ?thesis
    using stop_control_stays_enabled
      [where p = "\<lparr>now = snd (start one_track (page_load True)), pending = [], unhandled = []\<rparr>"
         and evs = "[Click_stop, Click_start, Permission_settles 0 (permission denied), Click_stop]"
         and r = one_track and n = 1 and ?w0.0 = "page_load True" and ps = "[]" and us = "[]"
         and w = "snd (start one_track (page_load True))" and d = True]
      granted_one_track c e
    by simp
qed

end
